theory Spec2Isabelle
  imports Complex_Main "HOL-Library.Word"
begin

unbundle bit_operations_syntax

section \<open>Values shared by the modules\<close>

text \<open>
  Parsed JSON values, as \<open>request.get_json()\<close> returns them and as \<open>jsonify\<close>
  takes them. A Python \<open>dict\<close> is an association list (the first binding of a key is the
  one looked up), a Python \<open>str\<close> is a \<open>string\<close> with one \<open>char\<close> per code point
  (code points below 256), numbers are \<open>int\<close> or, for floats, \<open>real\<close>.
\<close>

datatype json =
    JNull
  | JBool bool
  | JInt int
  | JFloat real
  | JStr string
  | JArr "json list"
  | JObj "(string \<times> json) list"

text \<open>A view result of Flask: the JSON body and the HTTP status code.\<close>

type_synonym response = "json \<times> nat"

text \<open>\<open>jsonify(body)\<close> alone answers with status 200.\<close>

definition jsonify :: "json \<Rightarrow> response" where
  "jsonify body = (body, 200)"

text \<open>The exceptions of Python the modelled code can meet.\<close>

datatype exn = TypeError | KeyError | ValueError | BinasciiError | OSError | RuntimeError

text \<open>\<open>d.get(k, default)\<close> on a dictionary.\<close>

definition dict_get :: "('k \<rightharpoonup> 'v) \<Rightarrow> 'k \<Rightarrow> 'v \<Rightarrow> 'v" where
  "dict_get d k dflt = (case d k of None \<Rightarrow> dflt | Some v \<Rightarrow> v)"

text \<open>Decimal rendering of an integer, as an f-string does it.\<close>

fun str_nat :: "nat \<Rightarrow> string" where
  "str_nat n =
     (if n < 10 then [''0123456789'' ! n]
      else str_nat (n div 10) @ [''0123456789'' ! (n mod 10)])"

declare str_nat.simps [simp del]

definition str_int :: "int \<Rightarrow> string" where
  "str_int i = (if i < 0 then CHR ''-'' # str_nat (nat (- i)) else str_nat (nat i))"

section \<open>utils/middleware.py\<close>

subsection \<open>\<open>require_json\<close>\<close>

text \<open>
  What a handler reads of the Flask request: \<open>request.is_json\<close>, \<open>request.remote_addr\<close>
  and the outcome of \<open>request.get_json()\<close> (the parsed body, or the exception it raises).
\<close>

record request =
  is_json :: bool
  remote_addr :: string
  get_json :: "exn + json"

definition content_type_error :: response where
  "content_type_error =
     (JObj [(''error'', JStr ''Content-Type must be application/json''),
            (''status_code'', JInt 400)], 400)"

definition require_json :: "(request \<Rightarrow> 's \<Rightarrow> response \<times> 's) \<Rightarrow> request \<Rightarrow> 's \<Rightarrow> response \<times> 's" where
  "require_json f req s =
     (if \<not> is_json req then (content_type_error, s) else f req s)"

subsection \<open>\<open>rate_limit_by_ip\<close>\<close>

text \<open>
  The dictionary \<open>request_counts\<close> of the decorator's closure maps a client address to
  the list of the timestamps of its admitted requests. \<open>time.time()\<close> is a real number
  of seconds (the rounding of floating point is not modelled); the reading of the clock
  is an argument of the decorated function.
\<close>

type_synonym client_ip = string
type_synonym request_counts = "client_ip \<rightharpoonup> real list"

definition rate_limit_exceeded :: "int \<Rightarrow> int \<Rightarrow> response" where
  "rate_limit_exceeded max_requests per_seconds =
     (JObj [(''error'', JStr ''Rate limit exceeded''),
            (''message'', JStr (''Maximum '' @ str_int max_requests @ '' requests per ''
                                 @ str_int per_seconds @ '' seconds'')),
            (''status_code'', JInt 429)], 429)"

text \<open>
  The decorated function, in the order of the source: clean the old entries of the
  caller, check the limit, add the current request, call the wrapped function \<open>f\<close>.
  The state is the dictionary of the closure paired with the state \<open>f\<close> works on.
\<close>

definition rate_limit_by_ip ::
  "int \<Rightarrow> int \<Rightarrow> ('s \<Rightarrow> response \<times> 's) \<Rightarrow> client_ip \<Rightarrow> real
     \<Rightarrow> request_counts \<times> 's \<Rightarrow> response \<times> (request_counts \<times> 's)" where
  "rate_limit_by_ip max_requests per_seconds f client_ip current_time = (\<lambda>(request_counts, s).
     let cutoff_time = current_time - real_of_int per_seconds;
         request_counts = request_counts(client_ip \<mapsto>
            filter (\<lambda>timestamp. timestamp > cutoff_time) (dict_get request_counts client_ip []))
     in if int (length (dict_get request_counts client_ip [])) \<ge> max_requests
        then (rate_limit_exceeded max_requests per_seconds, (request_counts, s))
        else
          let request_counts =
                (if request_counts client_ip = None then request_counts(client_ip \<mapsto> [])
                 else request_counts);
              request_counts = request_counts(client_ip \<mapsto>
                 dict_get request_counts client_ip [] @ [current_time]);
              (response, s) = f s
          in (response, (request_counts, s)))"

text \<open>
  The admission decision alone: the decorator around a function that does nothing and
  answers 200. The decision is \<open>True\<close> when the wrapped function was reached.
\<close>

definition allow :: "int \<Rightarrow> int \<Rightarrow> client_ip \<Rightarrow> real \<Rightarrow> request_counts \<Rightarrow> bool \<times> request_counts" where
  "allow max_requests per_seconds client_ip current_time request_counts =
     (let (response, (request_counts, u)) =
            rate_limit_by_ip max_requests per_seconds (\<lambda>u. (jsonify (JObj []), u))
              client_ip current_time (request_counts, ())
      in (snd response \<noteq> 429, request_counts))"

text \<open>
  A run of checks, one after the other: each is the caller's address and the reading of
  the clock. The result is the list of the decisions and the dictionary at the end.
\<close>

fun run_checks :: "int \<Rightarrow> int \<Rightarrow> (client_ip \<times> real) list \<Rightarrow> request_counts
    \<Rightarrow> bool list \<times> request_counts" where
  "run_checks max_requests per_seconds [] request_counts = ([], request_counts)"
| "run_checks max_requests per_seconds ((client_ip, t) # calls) request_counts =
     (let (ok, request_counts) = allow max_requests per_seconds client_ip t request_counts;
          (oks, request_counts) = run_checks max_requests per_seconds calls request_counts
      in (ok # oks, request_counts))"

text \<open>The timestamps of the admitted checks of one caller in such a run.\<close>

definition admitted :: "int \<Rightarrow> int \<Rightarrow> client_ip \<Rightarrow> (client_ip \<times> real) list \<Rightarrow> request_counts
    \<Rightarrow> real list" where
  "admitted max_requests per_seconds client_ip calls request_counts =
     map (\<lambda>(call, ok). snd call)
       (filter (\<lambda>(call, ok). ok \<and> fst call = client_ip)
          (zip calls (fst (run_checks max_requests per_seconds calls request_counts))))"

text \<open>The window of a caller after the purge of a check at \<open>now\<close>.\<close>

definition purged :: "int \<Rightarrow> client_ip \<Rightarrow> real \<Rightarrow> request_counts \<Rightarrow> real list" where
  "purged per_seconds client_ip now request_counts =
     filter (\<lambda>timestamp. timestamp > now - real_of_int per_seconds) (dict_get request_counts client_ip [])"

section \<open>routes/voice_assistant.py\<close>

subsection \<open>Python operations on parsed JSON values\<close>

text \<open>\<open>sub in s\<close> on two strings: \<open>sub\<close> occurs in \<open>s\<close> as a contiguous part.\<close>

fun str_contains :: "string \<Rightarrow> string \<Rightarrow> bool" where
  "str_contains sub [] = (sub = [])"
| "str_contains sub (c # cs) = (take (length sub) (c # cs) = sub \<or> str_contains sub cs)"

text \<open>
  \<open>key in data\<close>: a key of a dictionary, an element of a list, a part of a string;
  \<open>None\<close>, booleans and numbers are not iterable and raise \<open>TypeError\<close>.
\<close>

fun py_in :: "string \<Rightarrow> json \<Rightarrow> exn + bool" where
  "py_in key (JObj items) = Inr (key \<in> set (map fst items))"
| "py_in key (JArr xs) = Inr (JStr key \<in> set xs)"
| "py_in key (JStr s) = Inr (str_contains key s)"
| "py_in key data = Inl TypeError"

text \<open>\<open>data[key]\<close> with a string key: only a dictionary can be indexed so.\<close>

fun py_getitem :: "json \<Rightarrow> string \<Rightarrow> exn + json" where
  "py_getitem (JObj items) key = (case map_of items key of None \<Rightarrow> Inl KeyError | Some v \<Rightarrow> Inr v)"
| "py_getitem data key = Inl TypeError"

text \<open>\<open>len(x)\<close>: strings, lists and dictionaries have a length, the rest raises \<open>TypeError\<close>.\<close>

fun py_len :: "json \<Rightarrow> exn + nat" where
  "py_len (JStr s) = Inr (length s)"
| "py_len (JArr xs) = Inr (length xs)"
| "py_len (JObj items) = Inr (length (remdups (map fst items)))"
| "py_len x = Inl TypeError"

text \<open>\<open>str.isspace\<close> on the code points below 256, and \<open>str.strip()\<close>.\<close>

definition isspace :: "char \<Rightarrow> bool" where
  "isspace c = ((of_char c :: nat) \<in> {9, 10, 11, 12, 13, 28, 29, 30, 31, 32, 133, 160})"

definition strip :: "string \<Rightarrow> string" where
  "strip s = rev (dropWhile isspace (rev (dropWhile isspace s)))"

subsection \<open>\<open>base64.b64decode\<close>\<close>

text \<open>
  \<open>base64.b64decode(s)\<close> of Python's standard library with its default
  \<open>validate=False\<close>: a \<open>str\<close> argument must be ASCII (\<open>ValueError\<close> otherwise), any
  other JSON value raises \<open>TypeError\<close>, and the bytes are decoded by the loop of
  \<open>binascii.a2b_base64\<close> in its non-strict mode. The loop skips every character that
  is not in the alphabet, stops at a padding that completes a quad, and raises
  \<open>binascii.Error\<close> when the input ends inside a quad.
\<close>

type_synonym byte = "8 word"

definition table_b2a_base64 :: string where
  "table_b2a_base64 = ''ABCDEFGHIJKLMNOPQRSTUVWXYZabcdefghijklmnopqrstuvwxyz0123456789+/''"

text \<open>The decoding table: the position of a character in the alphabet, if it has one.\<close>

definition table_a2b_base64 :: "char \<Rightarrow> byte option" where
  "table_a2b_base64 c =
     (let n = (of_char c :: nat) in
      if 65 \<le> n \<and> n \<le> 90 then Some (of_nat (n - 65))
      else if 97 \<le> n \<and> n \<le> 122 then Some (of_nat (n - 71))
      else if 48 \<le> n \<and> n \<le> 57 then Some (of_nat (n + 4))
      else if c = CHR ''+'' then Some 62
      else if c = CHR ''/'' then Some 63
      else None)"

fun a2b_base64_loop :: "string \<Rightarrow> nat \<Rightarrow> byte \<Rightarrow> nat \<Rightarrow> byte list \<Rightarrow> exn + byte list" where
  "a2b_base64_loop [] quad_pos leftchar pads bin_data =
     (if quad_pos \<noteq> 0 then Inl BinasciiError else Inr bin_data)"
| "a2b_base64_loop (c # cs) quad_pos leftchar pads bin_data =
     (if c = CHR ''='' then
        (if quad_pos \<ge> 2 \<and> quad_pos + (pads + 1) \<ge> 4 then Inr bin_data
         else a2b_base64_loop cs quad_pos leftchar (if quad_pos \<ge> 2 then pads + 1 else pads) bin_data)
      else
        (case table_a2b_base64 c of
           None \<Rightarrow> a2b_base64_loop cs quad_pos leftchar pads bin_data
         | Some this_ch \<Rightarrow>
             (if quad_pos = 0 then a2b_base64_loop cs 1 this_ch 0 bin_data
              else if quad_pos = 1 then
                a2b_base64_loop cs 2 (this_ch AND 15) 0
                  (bin_data @ [push_bit 2 leftchar OR drop_bit 4 this_ch])
              else if quad_pos = 2 then
                a2b_base64_loop cs 3 (this_ch AND 3) 0
                  (bin_data @ [push_bit 4 leftchar OR drop_bit 2 this_ch])
              else
                a2b_base64_loop cs 0 0 0 (bin_data @ [push_bit 6 leftchar OR this_ch]))))"

definition b64decode :: "json \<Rightarrow> exn + byte list" where
  "b64decode s =
     (case s of
        JStr cs \<Rightarrow>
          (if \<exists>c \<in> set cs. (of_char c :: nat) > 127 then Inl ValueError
           else a2b_base64_loop cs 0 0 0 [])
      | _ \<Rightarrow> Inl TypeError)"

text \<open>
  The standard base64 encoding of a byte string (RFC 4648, what \<open>base64.b64encode\<close>
  gives). It is the encoding a client applies to the audio before the request; the
  repository only decodes.
\<close>

definition b64chr :: "byte \<Rightarrow> char" where
  "b64chr w = table_b2a_base64 ! unat w"

fun b64encode :: "byte list \<Rightarrow> string" where
  "b64encode [] = []"
| "b64encode [a] =
     [b64chr (drop_bit 2 a), b64chr (push_bit 4 (a AND 3)), CHR ''='', CHR ''='']"
| "b64encode [a, b] =
     [b64chr (drop_bit 2 a), b64chr (push_bit 4 (a AND 3) OR drop_bit 4 b),
      b64chr (push_bit 2 (b AND 15)), CHR ''='']"
| "b64encode (a # b # c # bs) =
     [b64chr (drop_bit 2 a), b64chr (push_bit 4 (a AND 3) OR drop_bit 4 b),
      b64chr (push_bit 2 (b AND 15) OR drop_bit 6 c), b64chr (c AND 63)] @ b64encode bs"

subsection \<open>The shared model\<close>

text \<open>
  The module's globals \<open>model\<close> and \<open>last_used\<close>, and the files of \<open>/tmp\<close>. A loaded
  model is known by the number of the call of \<open>whisper.load_model\<close> that built it;
  \<open>load_calls\<close> counts these calls. Whether the \<open>n\<close>-th call succeeds is not decided by
  the program: it is the argument \<open>load_ok\<close>. Log lines are left out.
\<close>

type_synonym whisper_model = nat
type_synonym path = string

record vstate =
  model :: "whisper_model option"
  last_used :: real
  load_calls :: nat
  files :: "path \<rightharpoonup> byte list"

definition SUPPORTED_LANGUAGES :: "(string \<times> string) list" where
  "SUPPORTED_LANGUAGES =
     [(''en'', ''English''), (''hi'', ''Hindi''), (''bn'', ''Bengali''), (''te'', ''Telugu''),
      (''ta'', ''Tamil''), (''gu'', ''Gujarati''), (''kn'', ''Kannada''), (''ml'', ''Malayalam''),
      (''pa'', ''Punjabi''), (''or'', ''Odia''), (''mr'', ''Marathi''), (''as'', ''Assamese''),
      (''ur'', ''Urdu'')]"

definition load_whisper_model :: "(nat \<Rightarrow> bool) \<Rightarrow> vstate \<Rightarrow> bool \<times> vstate" where
  "load_whisper_model load_ok s =
     (let n = load_calls s;
          s = s\<lparr>load_calls := n + 1\<rparr>
      in if load_ok n then (True, s\<lparr>model := Some n\<rparr>) else (False, s))"

text \<open>The whole body of \<open>get_model\<close> runs under \<open>model_lock\<close>; \<open>now\<close> is its reading of the clock.\<close>

definition get_model :: "(nat \<Rightarrow> bool) \<Rightarrow> real \<Rightarrow> vstate \<Rightarrow> whisper_model option \<times> vstate" where
  "get_model load_ok now s =
     (if model s = None then
        (case load_whisper_model load_ok s of
           (False, s) \<Rightarrow> (None, s)
         | (True, s) \<Rightarrow> (let s = s\<lparr>last_used := now\<rparr> in (model s, s)))
      else (let s = s\<lparr>last_used := now\<rparr> in (model s, s)))"

text \<open>
  \<open>cleanup_model_if_idle\<close> tests \<open>model is not None and time.time() - last_used > 600\<close>
  before it takes the lock (\<open>cleanup_check\<close>), and under the lock tests only
  \<open>model is not None\<close> before it drops the model (\<open>cleanup_locked\<close>).
\<close>

definition cleanup_check :: "real \<Rightarrow> vstate \<Rightarrow> bool" where
  "cleanup_check now s = (model s \<noteq> None \<and> now - last_used s > 600)"

definition cleanup_locked :: "vstate \<Rightarrow> vstate" where
  "cleanup_locked s = (if model s \<noteq> None then s\<lparr>model := None\<rparr> else s)"

definition cleanup_model_if_idle :: "real \<Rightarrow> vstate \<Rightarrow> vstate" where
  "cleanup_model_if_idle now s = (if cleanup_check now s then cleanup_locked s else s)"

definition is_supported_language :: "string \<Rightarrow> bool" where
  "is_supported_language lang_code = (lang_code \<in> set (map fst SUPPORTED_LANGUAGES))"

text \<open>
  Threads meet only at \<open>model_lock\<close>. A schedule is a list of the atomic steps: a whole
  \<open>get_model\<close>, the unlocked test of the sweep, and the locked section of the sweep,
  which runs only when the test of the same sweep was passed.
\<close>

datatype step = Get_model real | Sweep_check real | Sweep_locked

record sys =
  globals :: vstate
  sweep_passed :: bool

fun exec_step :: "(nat \<Rightarrow> bool) \<Rightarrow> step \<Rightarrow> sys \<Rightarrow> sys" where
  "exec_step load_ok (Get_model now) y = y\<lparr>globals := snd (get_model load_ok now (globals y))\<rparr>"
| "exec_step load_ok (Sweep_check now) y = y\<lparr>sweep_passed := cleanup_check now (globals y)\<rparr>"
| "exec_step load_ok Sweep_locked y =
     (if sweep_passed y then y\<lparr>globals := cleanup_locked (globals y), sweep_passed := False\<rparr>
      else y)"

fun exec_steps :: "(nat \<Rightarrow> bool) \<Rightarrow> step list \<Rightarrow> sys \<Rightarrow> sys" where
  "exec_steps load_ok [] y = y"
| "exec_steps load_ok (st # sts) y = exec_steps load_ok sts (exec_step load_ok st y)"

text \<open>Calls of \<open>get_model\<close> in the order in which they get the lock.\<close>

fun get_model_calls :: "(nat \<Rightarrow> bool) \<Rightarrow> real list \<Rightarrow> vstate \<Rightarrow> whisper_model option list \<times> vstate" where
  "get_model_calls load_ok [] s = ([], s)"
| "get_model_calls load_ok (now # nows) s =
     (let (m, s) = get_model load_ok now s;
          (ms, s) = get_model_calls load_ok nows s
      in (m # ms, s))"

subsection \<open>\<open>health_check\<close>\<close>

text \<open>Nothing in the \<open>try\<close> block of the model raises, so the 503 branch is not reached.\<close>

definition health_check :: "(nat \<Rightarrow> bool) \<Rightarrow> real \<Rightarrow> vstate \<Rightarrow> response \<times> vstate" where
  "health_check load_ok now s =
     (let (whisper_model, s) = get_model load_ok now s;
          model_status = (if whisper_model \<noteq> None then ''loaded'' else ''not_loaded'')
      in (jsonify (JObj [(''status'', JStr ''success''),
                         (''service'', JStr ''Voice Transcription Service''),
                         (''whisper_model'', JStr ''tiny (CPU optimized)''),
                         (''model_status'', JStr model_status),
                         (''supported_languages'', JInt (int (length SUPPORTED_LANGUAGES))),
                         (''environment'', JStr ''render''),
                         (''memory_optimized'', JBool True)]), s))"

subsection \<open>\<open>transcribe_audio\<close>\<close>

text \<open>
  What the program does not decide during one request: the two readings of the clock,
  the outcome of the loads, the name \<open>NamedTemporaryFile\<close> picks, whether the write and
  the unlink succeed, and what the Whisper model makes of the content of the file it is
  given (an exception, or the text and the language).
\<close>

record transcription =
  text_of :: string
  language :: string

record env =
  clock_cleanup :: real
  clock_get_model :: real
  load_ok :: "nat \<Rightarrow> bool"
  tmp_name :: path
  write_ok :: bool
  transcribe :: "byte list \<Rightarrow> exn + transcription"
  unlink_ok :: bool

definition model_unavailable :: response where
  "model_unavailable =
     (JObj [(''status'', JStr ''error''),
            (''message'', JStr ''Whisper model not available. Please try again.'')], 503)"

definition missing_audio_data :: response where
  "missing_audio_data =
     (JObj [(''status'', JStr ''error''), (''message'', JStr ''Missing audio_data field'')], 400)"

definition audio_too_large :: response where
  "audio_too_large =
     (JObj [(''status'', JStr ''error''),
            (''message'', JStr ''Audio file too large. Maximum size is 5MB.'')], 413)"

definition invalid_base64 :: response where
  "invalid_base64 =
     (JObj [(''status'', JStr ''error''), (''message'', JStr ''Invalid base64 audio data'')], 400)"

definition could_not_transcribe :: response where
  "could_not_transcribe =
     (JObj [(''status'', JStr ''error''),
            (''message'', JStr ''Could not transcribe audio. Please try again.'')], 500)"

definition transcription_response :: "transcription \<Rightarrow> response" where
  "transcription_response result =
     (let transcribed_text = strip (text_of result);
          detected_language = language result;
          detected_language =
            (if \<not> is_supported_language detected_language then ''en'' else detected_language)
      in jsonify (JObj [(''status'', JStr ''success''),
           (''data'', JObj [(''transcribed_text'', JStr transcribed_text),
                            (''detected_language'', JStr detected_language),
                            (''language_name'',
                               JStr (dict_get (map_of SUPPORTED_LANGUAGES) detected_language ''English'')),
                            (''confidence'', JFloat 0.85)])]))"

text \<open>
  The inner \<open>try ... finally\<close>. The file is created, the bytes are written, and only then
  is the name kept in \<open>temp_audio_path\<close>; the model reads the file. The \<open>finally\<close> part
  unlinks the file when the name was kept and the file exists, and passes over a failure
  of the unlink. A failed write leaves the file as it was created.
\<close>

definition transcribe_temp_file :: "env \<Rightarrow> byte list \<Rightarrow> vstate \<Rightarrow> (exn + response) \<times> vstate" where
  "transcribe_temp_file env audio_bytes s =
     (let temp_audio_path = None;
          s = s\<lparr>files := (files s)(tmp_name env \<mapsto> [])\<rparr>;
          (outcome, temp_audio_path, s) =
            (if \<not> write_ok env then (Inl OSError, temp_audio_path, s)
             else
               let s = s\<lparr>files := (files s)(tmp_name env \<mapsto> audio_bytes)\<rparr>;
                   temp_audio_path = Some (tmp_name env)
               in (case files s (tmp_name env) of
                     None \<Rightarrow> (Inl OSError, temp_audio_path, s)
                   | Some content \<Rightarrow>
                       (case transcribe env content of
                          Inl e \<Rightarrow> (Inl e, temp_audio_path, s)
                        | Inr result \<Rightarrow> (Inr (transcription_response result), temp_audio_path, s))));
          s = (case temp_audio_path of
                 None \<Rightarrow> s
               | Some p \<Rightarrow>
                   if p \<noteq> [] \<and> files s p \<noteq> None
                   then (if unlink_ok env then s\<lparr>files := (files s)(p := None)\<rparr> else s)
                   else s)
      in (outcome, s))"

text \<open>The body of the outer \<open>try\<close>: \<open>Inl\<close> is an exception that reaches \<open>except Exception\<close>.\<close>

definition transcribe_audio_try :: "env \<Rightarrow> request \<Rightarrow> vstate \<Rightarrow> (exn + response) \<times> vstate" where
  "transcribe_audio_try env req s =
     (let s = cleanup_model_if_idle (clock_cleanup env) s;
          (whisper_model, s) = get_model (load_ok env) (clock_get_model env) s
      in if whisper_model = None then (Inr model_unavailable, s)
         else
           (case get_json req of
              Inl e \<Rightarrow> (Inl e, s)
            | Inr data \<Rightarrow>
                (case py_in ''audio_data'' data of
                   Inl e \<Rightarrow> (Inl e, s)
                 | Inr present \<Rightarrow>
                     if \<not> present then (Inr missing_audio_data, s)
                     else
                       (case py_getitem data ''audio_data'' of
                          Inl e \<Rightarrow> (Inl e, s)
                        | Inr audio_data \<Rightarrow>
                            (case py_len audio_data of
                               Inl e \<Rightarrow> (Inl e, s)
                             | Inr n \<Rightarrow>
                                 if n > 5 * 1024 * 1024 then (Inr audio_too_large, s)
                                 else
                                   (case b64decode audio_data of
                                      Inl e \<Rightarrow> (Inr invalid_base64, s)
                                    | Inr audio_bytes \<Rightarrow> transcribe_temp_file env audio_bytes s))))))"

definition transcribe_audio :: "env \<Rightarrow> request \<Rightarrow> vstate \<Rightarrow> response \<times> vstate" where
  "transcribe_audio env req s =
     (case transcribe_audio_try env req s of
        (Inl e, s) \<Rightarrow> (could_not_transcribe, s)
      | (Inr response, s) \<Rightarrow> (response, s))"

text \<open>
  The first two statements of the view: the sweep of an idle model, then \<open>get_model\<close>.
  The request goes on to its body only when this gives a model.
\<close>

definition acquire :: "env \<Rightarrow> vstate \<Rightarrow> whisper_model option \<times> vstate" where
  "acquire env s =
     get_model (load_ok env) (clock_get_model env) (cleanup_model_if_idle (clock_cleanup env) s)"

text \<open>The route: \<open>require_json\<close> around \<open>rate_limit_by_ip(20, 3600)\<close> around the view.\<close>

definition transcribe_route :: "env \<Rightarrow> real \<Rightarrow> request \<Rightarrow> request_counts \<times> vstate
    \<Rightarrow> response \<times> (request_counts \<times> vstate)" where
  "transcribe_route env now =
     require_json (\<lambda>req. rate_limit_by_ip 20 3600 (transcribe_audio env req) (remote_addr req) now)"

subsection \<open>Inputs of the examples\<close>

text \<open>
  A state with the model loaded, a world in which every external step succeeds and the
  model hears Hindi, and a JSON request with a given parsed body.
\<close>

definition ready :: vstate where
  "ready = \<lparr>model = Some 0, last_used = 0, load_calls = 1, files = Map.empty\<rparr>"

definition fair_weather :: env where
  "fair_weather =
     \<lparr>clock_cleanup = 10, clock_get_model = 10, load_ok = (\<lambda>n. True),
      tmp_name = ''/tmp/tmpk3x9.wav'', write_ok = True,
      transcribe = (\<lambda>content. Inr \<lparr>text_of = '' namaste '', language = ''hi''\<rparr>),
      unlink_ok = True\<rparr>"

definition post :: "json \<Rightarrow> request" where
  "post body = \<lparr>is_json = True, remote_addr = ''10.0.0.1'', get_json = Inr body\<rparr>"

section \<open>The rate limiter\<close>

lemma rate_limit_by_ip_reject:
  "int (length (purged W k now rc)) \<ge> N \<Longrightarrow>
   rate_limit_by_ip N W f k now (rc, s) = (rate_limit_exceeded N W, (rc(k \<mapsto> purged W k now rc), s))"
  by (simp add: rate_limit_by_ip_def purged_def dict_get_def Let_def)

lemma rate_limit_by_ip_accept:
  "int (length (purged W k now rc)) < N \<Longrightarrow>
   rate_limit_by_ip N W f k now (rc, s) = (fst (f s), (rc(k \<mapsto> purged W k now rc @ [now]), snd (f s)))"
  by (simp add: rate_limit_by_ip_def purged_def dict_get_def Let_def split: prod.splits)

lemma allow_eq:
  "allow N W k now rc =
     (if int (length (purged W k now rc)) \<ge> N then (False, rc(k \<mapsto> purged W k now rc))
      else (True, rc(k \<mapsto> purged W k now rc @ [now])))"
  by (simp add: allow_def rate_limit_by_ip_reject rate_limit_by_ip_accept
        rate_limit_exceeded_def jsonify_def)


lemma run_checks_length: "length (fst (run_checks N W calls rc)) = length calls"
proof (induction calls arbitrary: rc)
  case Nil
  then show ?case by simp
next
  case (Cons c calls)
  obtain k t where c: "c = (k, t)" by (cases c)
  obtain ok rc1 where a: "allow N W k t rc = (ok, rc1)" by (cases "allow N W k t rc")
  obtain oks rc2 where r: "run_checks N W calls rc1 = (oks, rc2)" by (cases "run_checks N W calls rc1")
  from Cons [of rc1] r have "length oks = length calls" by simp
  with c a r show ?case by simp
qed

lemma run_checks_snoc:
  "run_checks N W (calls @ [(k, t)]) rc =
     (let (oks, rc1) = run_checks N W calls rc; (ok, rc2) = allow N W k t rc1 in (oks @ [ok], rc2))"
  by (induction calls arbitrary: rc) (auto simp: Let_def split: prod.splits)

lemma purged_length_le: "length (purged W k now rc) \<le> length (dict_get rc k [])"
  by (simp add: purged_def)

lemma allow_window_bound:
  assumes "0 \<le> N" and "\<forall>k'. int (length (dict_get rc k' [])) \<le> N"
  shows "int (length (dict_get (snd (allow N W k now rc)) k' [])) \<le> N"
proof -
  have "int (length (purged W k now rc)) \<le> N"
    using assms(2) [rule_format, of k] purged_length_le [of W k now rc] by linarith
  then show ?thesis
    using assms by (auto simp: allow_eq dict_get_def)
qed

lemma run_checks_window_bound:
  assumes "0 \<le> N" and "\<forall>k'. int (length (dict_get rc k' [])) \<le> N"
  shows "int (length (dict_get (snd (run_checks N W calls rc)) k' [])) \<le> N"
  using assms(2)
proof (induction calls arbitrary: rc)
  case Nil
  then show ?case by simp
next
  case (Cons c calls)
  obtain k t where c: "c = (k, t)" by (cases c)
  have "\<forall>k'. int (length (dict_get (snd (allow N W k t rc)) k' [])) \<le> N"
    using allow_window_bound [OF assms(1) Cons.prems] by blast
  from Cons.IH [OF this] c show ?case
    by (cases "allow N W k t rc"; cases "run_checks N W calls (snd (allow N W k t rc))") simp
qed

text \<open>
  Claim C1. A check of the limiter for the caller \<open>k\<close> at the time \<open>now\<close> keeps of the
  caller's window exactly the timestamps later than \<open>now - per_seconds\<close>, so every older
  one is purged. When the count that remains is at least \<open>max_requests\<close> the answer is
  the 429 response, the wrapped function is not called and \<open>now\<close> is not recorded;
  otherwise \<open>now\<close> is appended and the answer is the wrapped function's. With
  \<open>max_requests = 2\<close> and \<open>per_seconds = 60\<close>, three checks of a new caller within one
  second are accepted, accepted, rejected.
\<close>

theorem admission_check:
  "(\<forall>t \<in> set (dict_get rc k []). t \<in> set (purged W k now rc) \<longleftrightarrow> \<not> t \<le> now - real_of_int W)
   \<and> (int (length (purged W k now rc)) \<ge> N \<longrightarrow>
        rate_limit_by_ip N W f k now (rc, s) = (rate_limit_exceeded N W, (rc(k \<mapsto> purged W k now rc), s))
        \<and> snd (rate_limit_exceeded N W) = 429)
   \<and> (int (length (purged W k now rc)) < N \<longrightarrow>
        rate_limit_by_ip N W f k now (rc, s) = (fst (f s), (rc(k \<mapsto> purged W k now rc @ [now]), snd (f s))))
   \<and> (rc k = None \<and> t1 \<le> t2 \<and> t2 \<le> t3 \<and> t3 \<le> t1 + 1 \<longrightarrow>
        fst (run_checks 2 60 [(k, t1), (k, t2), (k, t3)] rc) = [True, True, False])"
proof (intro conjI impI ballI)
  fix t assume "t \<in> set (dict_get rc k [])"
  then show "t \<in> set (purged W k now rc) \<longleftrightarrow> \<not> t \<le> now - real_of_int W"
    by (auto simp: purged_def)
next
  assume "N \<le> int (length (purged W k now rc))"
  then show "rate_limit_by_ip N W f k now (rc, s) = (rate_limit_exceeded N W, (rc(k \<mapsto> purged W k now rc), s))"
    by (rule rate_limit_by_ip_reject)
next
  show "snd (rate_limit_exceeded N W) = 429" by (simp add: rate_limit_exceeded_def)
next
  assume "int (length (purged W k now rc)) < N"
  then show "rate_limit_by_ip N W f k now (rc, s) = (fst (f s), (rc(k \<mapsto> purged W k now rc @ [now]), snd (f s)))"
    by (rule rate_limit_by_ip_accept)
next
  assume h: "rc k = None \<and> t1 \<le> t2 \<and> t2 \<le> t3 \<and> t3 \<le> t1 + 1"
  then show "fst (run_checks 2 60 [(k, t1), (k, t2), (k, t3)] rc) = [True, True, False]"
    by (simp add: allow_eq purged_def dict_get_def Let_def)
qed

theorem admission_check_witness:
  "fst (run_checks 2 60 [(''10.0.0.1'', 100), (''10.0.0.1'', 100.5), (''10.0.0.1'', 101)] Map.empty)
      = [True, True, False]
   \<and> rate_limit_by_ip 2 60 (\<lambda>u. (jsonify JNull, u)) ''10.0.0.1'' 101
        ([''10.0.0.1'' \<mapsto> [30, 100, 100.5]], ())
      = (rate_limit_exceeded 2 60, ([''10.0.0.1'' \<mapsto> [100, 100.5]], ()))"
  using admission_check [of "[''10.0.0.1'' \<mapsto> [30, 100, 100.5]]" "''10.0.0.1''" 60 101 2 "\<lambda>u. (jsonify JNull, u)" "()" 100 "100.5" 101]
     admission_check [of "Map.empty" "''10.0.0.1''" 60 101 2 "\<lambda>u. (jsonify JNull, u)" "()" 100 "100.5" 101]
  by (simp add: purged_def dict_get_def)

lemma admitted_Nil [simp]: "admitted N W k [] rc = []"
  by (simp add: admitted_def)

lemma admitted_snoc:
  "admitted N W k (calls @ [(k', t)]) rc =
     admitted N W k calls rc @
       (if fst (allow N W k' t (snd (run_checks N W calls rc))) \<and> k' = k then [t] else [])"
proof -
  obtain oks rc1 where r: "run_checks N W calls rc = (oks, rc1)" by (cases "run_checks N W calls rc")
  obtain ok rc2 where a: "allow N W k' t rc1 = (ok, rc2)" by (cases "allow N W k' t rc1")
  have len: "length oks = length calls" using run_checks_length [of N W calls rc] r by simp
  show ?thesis
    using r a len by (simp add: admitted_def run_checks_snoc)
qed

lemma filter_later:
  fixes t now :: real
  assumes "t \<le> now"
  shows "filter (\<lambda>x. now - W < x) (filter (\<lambda>x. t - W < x) xs) = filter (\<lambda>x. now - W < x) xs"
  using assms by (induction xs) auto

lemma window_admitted:
  assumes "sorted (map snd calls)" and "dict_get rc k [] = []"
  shows "\<forall>now. (\<forall>c \<in> set calls. snd c \<le> now) \<longrightarrow>
           filter (\<lambda>x. now - real_of_int W < x) (dict_get (snd (run_checks N W calls rc)) k [])
         = filter (\<lambda>x. now - real_of_int W < x) (admitted N W k calls rc)"
  using assms(1)
proof (induction calls rule: rev_induct)
  case Nil
  then show ?case using assms(2) by simp
next
  case (snoc c calls)
  obtain k' t where c: "c = (k', t)" by (cases c)
  from snoc.prems have srt: "sorted (map snd calls)" and le: "\<forall>c \<in> set calls. snd c \<le> t"
    by (auto simp: c sorted_append)
  note IH = snoc.IH [OF srt]
  obtain oks rc1 where r: "run_checks N W calls rc = (oks, rc1)" by (cases "run_checks N W calls rc")
  have at_t: "purged W k t rc1 = filter (\<lambda>x. t - real_of_int W < x) (admitted N W k calls rc)"
    using IH le r by (simp add: purged_def)
  show ?case
  proof (intro allI impI)
    fix now assume "\<forall>c \<in> set (calls @ [c]). snd c \<le> now"
    then have tn: "t \<le> now" and le': "\<forall>c \<in> set calls. snd c \<le> now" by (auto simp: c)
    show "filter (\<lambda>x. now - real_of_int W < x) (dict_get (snd (run_checks N W (calls @ [c]) rc)) k [])
         = filter (\<lambda>x. now - real_of_int W < x) (admitted N W k (calls @ [c]) rc)"
    proof (cases "k' = k")
      case True
      then show ?thesis
        using r at_t tn filter_later [OF tn, of "real_of_int W"]
        by (simp add: c run_checks_snoc admitted_snoc allow_eq dict_get_def)
    next
      case False
      then show ?thesis
        using r IH le' by (simp add: c run_checks_snoc admitted_snoc allow_eq dict_get_def)
    qed
  qed
qed

lemma run_checks_shift:
  "(\<forall>k. rc' k = map_option (map (\<lambda>t. t + d)) (rc k)) \<Longrightarrow>
   fst (run_checks N W (map (\<lambda>(k, t). (k, t + d)) calls) rc') = fst (run_checks N W calls rc)"
proof (induction calls arbitrary: rc rc')
  case Nil
  then show ?case by simp
next
  case (Cons c calls)
  obtain k t where c: "c = (k, t)" by (cases c)
  have p: "purged W k (t + d) rc' = map (\<lambda>t. t + d) (purged W k t rc)"
    using Cons.prems [rule_format, of k]
    by (cases "rc k") (auto simp: purged_def dict_get_def filter_map comp_def)
  have a: "fst (allow N W k (t + d) rc') = fst (allow N W k t rc)"
    by (simp add: allow_eq p)
  have s: "\<forall>k'. snd (allow N W k (t + d) rc') k' = map_option (map (\<lambda>t. t + d)) (snd (allow N W k t rc) k')"
    using Cons.prems by (simp add: allow_eq p)
  from Cons.IH [OF s] a show ?case
    by (simp add: c split: prod.splits) (metis fst_conv snd_conv)
qed

text \<open>
  Claim C9. With \<open>max_requests\<close> not negative, after every run of checks that starts
  from the empty dictionary the window of each caller holds at most \<open>max_requests\<close>
  timestamps, and one check keeps that bound for every caller. An accepted check
  appends exactly the one timestamp \<open>now\<close> to a purged window that held fewer than
  \<open>max_requests\<close> entries; a rejected check stores the purged window and appends nothing.
\<close>

theorem window_bound:
  assumes "0 \<le> N"
  shows "int (length (dict_get (snd (run_checks N W calls Map.empty)) k' [])) \<le> N
    \<and> ((\<forall>k. int (length (dict_get rc k [])) \<le> N) \<longrightarrow>
          (\<forall>k. int (length (dict_get (snd (allow N W k now rc)) k [])) \<le> N))
    \<and> (fst (allow N W k now rc) \<longrightarrow>
          int (length (purged W k now rc)) < N \<and>
          snd (allow N W k now rc) = rc(k \<mapsto> purged W k now rc @ [now]))
    \<and> (\<not> fst (allow N W k now rc) \<longrightarrow>
          snd (allow N W k now rc) = rc(k \<mapsto> purged W k now rc))"
proof (intro conjI)
  show "int (length (dict_get (snd (run_checks N W calls Map.empty)) k' [])) \<le> N"
    using run_checks_window_bound [OF assms, of Map.empty W calls k'] assms
    by (simp add: dict_get_def)
  show "(\<forall>k. int (length (dict_get rc k [])) \<le> N) \<longrightarrow>
          (\<forall>k. int (length (dict_get (snd (allow N W k now rc)) k [])) \<le> N)"
    using allow_window_bound [OF assms] by blast
  show "fst (allow N W k now rc) \<longrightarrow>
          int (length (purged W k now rc)) < N \<and>
          snd (allow N W k now rc) = rc(k \<mapsto> purged W k now rc @ [now])"
    by (simp add: allow_eq)
  show "\<not> fst (allow N W k now rc) \<longrightarrow>
          snd (allow N W k now rc) = rc(k \<mapsto> purged W k now rc)"
    by (simp add: allow_eq)
qed

theorem window_bound_witness:
  "int (length (dict_get (snd (run_checks 2 60 [(''a'', 0), (''b'', 1), (''a'', 2), (''a'', 3)] Map.empty)) ''a'' [])) \<le> 2
   \<and> snd (allow 2 60 ''a'' 3 [''a'' \<mapsto> [0, 2]]) = [''a'' \<mapsto> [0, 2]]
   \<and> snd (allow 2 60 ''a'' 61 [''a'' \<mapsto> [0, 2]]) = [''a'' \<mapsto> [2, 61]]"
  using window_bound [of 2 60 "[(''a'', 0), (''b'', 1), (''a'', 2), (''a'', 3)]" "''a''" "[''a'' \<mapsto> [0, 2]]" 3 "''a''"]
    window_bound [of 2 60 "[]" "''a''" "[''a'' \<mapsto> [0, 2]]" 61 "''a''"]
  by (simp add: allow_eq purged_def dict_get_def)

text \<open>
  Claim C2. In a run of checks whose clock readings do not decrease, for a caller whose
  window was empty at the start, a check at \<open>now\<close> is accepted exactly when fewer than
  \<open>max_requests\<close> of the caller's admitted checks \<open>t\<close> still satisfy
  \<open>now < t + per_seconds\<close>: with \<open>max_requests\<close> admitted checks inside the trailing
  window the next one is rejected, and each admitted check frees its slot exactly
  \<open>per_seconds\<close> after its own timestamp. When the oldest entry of a full window is
  \<open>per_seconds\<close> old, the check is accepted. With one request allowed, a caller admitted
  at \<open>t\<close> is admitted again at \<open>now\<close> exactly when \<open>t + per_seconds \<le> now\<close>. Shifting
  every reading of the clock by the same amount changes no decision.
\<close>

theorem sliding_window:
  "(sorted (map snd (calls @ [(k, now)])) \<and> dict_get rc k [] = [] \<longrightarrow>
      (fst (allow N W k now (snd (run_checks N W calls rc))) \<longleftrightarrow>
         int (length (filter (\<lambda>t. now < t + real_of_int W) (admitted N W k calls rc))) < N))
   \<and> ((\<forall>k'. int (length (dict_get rc k' [])) \<le> N) \<and> 0 < N \<and> dict_get rc k [] = t0 # w
        \<and> t0 + real_of_int W \<le> now \<longrightarrow> fst (allow N W k now rc))
   \<and> fst (run_checks 1 W [(k, t), (k, now)] Map.empty) = [True, t + real_of_int W \<le> now]
   \<and> fst (run_checks N W (map (\<lambda>(k, t). (k, t + d)) calls) Map.empty) = fst (run_checks N W calls Map.empty)"
proof (intro conjI impI)
  assume h: "sorted (map snd (calls @ [(k, now)])) \<and> dict_get rc k [] = []"
  then have srt: "sorted (map snd calls)" and le: "\<forall>c \<in> set calls. snd c \<le> now"
    by (auto simp: sorted_append)
  have "purged W k now (snd (run_checks N W calls rc))
      = filter (\<lambda>x. now - real_of_int W < x) (admitted N W k calls rc)"
    using window_admitted [OF srt, of rc k W N] h le by (simp add: purged_def)
  moreover have "(\<lambda>x. now - real_of_int W < x) = (\<lambda>t. now < t + real_of_int W)"
    by (auto simp: fun_eq_iff)
  ultimately show "fst (allow N W k now (snd (run_checks N W calls rc))) \<longleftrightarrow>
         int (length (filter (\<lambda>t. now < t + real_of_int W) (admitted N W k calls rc))) < N"
    by (auto simp: allow_eq)
next
  assume h: "(\<forall>k'. int (length (dict_get rc k' [])) \<le> N) \<and> 0 < N \<and> dict_get rc k [] = t0 # w
        \<and> t0 + real_of_int W \<le> now"
  then have "int (length (t0 # w)) \<le> N" by metis
  then have a: "int (length w) + 1 \<le> N" by simp
  have b: "purged W k now rc = filter (\<lambda>x. now - real_of_int W < x) w"
    using h by (simp add: purged_def)
  have c: "length (filter (\<lambda>x. now - real_of_int W < x) w) \<le> length w"
    by (rule length_filter_le)
  have "int (length (purged W k now rc)) < N"
    unfolding b using a c by linarith
  then show "fst (allow N W k now rc)" by (simp add: allow_eq)
next
  show "fst (run_checks 1 W [(k, t), (k, now)] Map.empty) = [True, t + real_of_int W \<le> now]"
    by (auto simp: allow_eq purged_def dict_get_def)
next
  show "fst (run_checks N W (map (\<lambda>(k, t). (k, t + d)) calls) Map.empty) = fst (run_checks N W calls Map.empty)"
    by (rule run_checks_shift) simp
qed

theorem sliding_window_witness:
  "fst (allow 2 60 ''a'' 60 (snd (run_checks 2 60 [(''a'', 0), (''b'', 5), (''a'', 10), (''a'', 20)] Map.empty)))
   \<and> \<not> fst (allow 2 60 ''a'' 59 (snd (run_checks 2 60 [(''a'', 0), (''b'', 5), (''a'', 10), (''a'', 20)] Map.empty)))
   \<and> fst (allow 2 60 ''a'' 60 [''a'' \<mapsto> [0, 10]])"
  using sliding_window [of "[(''a'', 0), (''b'', 5), (''a'', 10), (''a'', 20)]" "''a''" 60 Map.empty 2 60 0 "[]" 0 0]
    sliding_window [of "[(''a'', 0), (''b'', 5), (''a'', 10), (''a'', 20)]" "''a''" 59 Map.empty 2 60 0 "[]" 0 0]
    sliding_window [of "[]" "''a''" 60 "[''a'' \<mapsto> [0, 10]]" 2 60 0 "[10]" 0 0]
  by (simp add: admitted_def allow_eq purged_def dict_get_def)

section \<open>The shared model\<close>

lemma cleanup_model_if_idle_model:
  "model (cleanup_model_if_idle now s) = (if now - last_used s > 600 then None else model s)"
  by (simp add: cleanup_model_if_idle_def cleanup_check_def cleanup_locked_def)

lemma get_model_present:
  "model s = Some m \<Longrightarrow> get_model ld now s = (Some m, s\<lparr>last_used := now\<rparr>)"
  by (simp add: get_model_def Let_def)

lemma get_model_absent:
  "model s = None \<Longrightarrow> get_model ld now s =
     (if ld (load_calls s)
      then (Some (load_calls s), s\<lparr>load_calls := load_calls s + 1, model := Some (load_calls s), last_used := now\<rparr>)
      else (None, s\<lparr>load_calls := load_calls s + 1\<rparr>))"
  by (simp add: get_model_def load_whisper_model_def Let_def)

lemma get_model_calls_Cons:
  "get_model_calls ld (now # nows) s =
     (fst (get_model ld now s) # fst (get_model_calls ld nows (snd (get_model ld now s))),
      snd (get_model_calls ld nows (snd (get_model ld now s))))"
  by (simp add: case_prod_beta Let_def)

lemma get_model_calls_present:
  "model s = Some m \<Longrightarrow>
   fst (get_model_calls ld nows s) = replicate (length nows) (Some m)
   \<and> model (snd (get_model_calls ld nows s)) = Some m
   \<and> load_calls (snd (get_model_calls ld nows s)) = load_calls s"
proof (induction nows arbitrary: s)
  case Nil
  then show ?case by simp
next
  case (Cons now nows)
  have "model (s\<lparr>last_used := now\<rparr>) = Some m" using Cons.prems by simp
  from Cons.IH [OF this] show ?case
    using Cons.prems by (simp add: get_model_present get_model_calls_Cons del: get_model_calls.simps)
qed

lemma get_model_calls_all_fail:
  "model s = None \<Longrightarrow> \<forall>n. \<not> ld n \<Longrightarrow>
   fst (get_model_calls ld nows s) = replicate (length nows) None
   \<and> snd (get_model_calls ld nows s) = s\<lparr>load_calls := load_calls s + length nows\<rparr>"
proof (induction nows arbitrary: s)
  case Nil
  then show ?case by simp
next
  case (Cons now nows)
  have "model (s\<lparr>load_calls := load_calls s + 1\<rparr>) = None" using Cons.prems by simp
  from Cons.IH [OF this Cons.prems(2)] show ?case
    using Cons.prems by (simp add: get_model_absent get_model_calls_Cons del: get_model_calls.simps)
qed

text \<open>
  Claim C3. Run as one piece, the sweep drops the model exactly when a model is present
  and \<open>now - last_used > 600\<close> (lemma \<open>cleanup_model_if_idle_model\<close>). The test
  of the idle time is made before the lock is taken, and under the lock only the presence
  of the model is tested again. In the schedule below the model is loaded at time 0, the
  sweep passes its test at time 601, a \<open>get_model\<close> at time 601.5 takes the lock,
  refreshes \<open>last_used\<close> and returns the model, and the sweep then takes the lock and
  drops the model: a model whose \<open>last_used\<close> was refreshed within the idle timeout
  is destroyed.
\<close>

theorem sweep_race:
  "model (globals (exec_steps (\<lambda>n. True) [Get_model 0, Sweep_check 601, Get_model 601.5, Sweep_locked]
      \<lparr>globals = \<lparr>model = None, last_used = 0, load_calls = 0, files = Map.empty\<rparr>,
       sweep_passed = False\<rparr>)) = None
   \<and> last_used (globals (exec_steps (\<lambda>n. True) [Get_model 0, Sweep_check 601, Get_model 601.5, Sweep_locked]
      \<lparr>globals = \<lparr>model = None, last_used = 0, load_calls = 0, files = Map.empty\<rparr>,
       sweep_passed = False\<rparr>)) = 601.5
   \<and> fst (get_model (\<lambda>n. True) 601.5
        (globals (exec_steps (\<lambda>n. True) [Get_model 0, Sweep_check 601]
          \<lparr>globals = \<lparr>model = None, last_used = 0, load_calls = 0, files = Map.empty\<rparr>,
           sweep_passed = False\<rparr>))) = Some 0"
  by (simp add: get_model_def load_whisper_model_def cleanup_check_def cleanup_locked_def Let_def)

text \<open>
  Claim C4, as the claim states it, fails: \<open>health_check\<close> calls \<open>get_model\<close>, so a
  health query on the absent model loads it.
\<close>

theorem health_check_counterexample:
  "model (snd (health_check (\<lambda>n. True) 5
      \<lparr>model = None, last_used = 0, load_calls = 0, files = Map.empty\<rparr>)) = Some 0
   \<and> load_calls (snd (health_check (\<lambda>n. True) 5
      \<lparr>model = None, last_used = 0, load_calls = 0, files = Map.empty\<rparr>)) = 1"
  by (simp add: health_check_def get_model_def load_whisper_model_def Let_def)

text \<open>
  Claim C4, amended. The health endpoint answers 200 and reports \<open>loaded\<close> or
  \<open>not_loaded\<close> only, \<open>loaded\<close> exactly when the model is present after the call.
  It goes through \<open>get_model\<close>: a present model is kept and its \<open>last_used\<close> is
  refreshed; for an absent model one load is attempted, and the model is present
  afterwards exactly when that load succeeded.
\<close>

theorem health_check_status:
  "snd (fst (health_check ld now s)) = 200
   \<and> py_getitem (fst (fst (health_check ld now s))) ''model_status''
       = Inr (JStr (if model (snd (health_check ld now s)) \<noteq> None then ''loaded'' else ''not_loaded''))
   \<and> snd (health_check ld now s) = snd (get_model ld now s)
   \<and> (model s \<noteq> None \<longrightarrow>
        snd (health_check ld now s) = s\<lparr>last_used := now\<rparr>)
   \<and> (model s = None \<longrightarrow>
        load_calls (snd (health_check ld now s)) = load_calls s + 1
        \<and> model (snd (health_check ld now s))
            = (if ld (load_calls s) then Some (load_calls s) else None))"
proof (cases "model s")
  case None
  then show ?thesis
    by (simp add: health_check_def get_model_absent jsonify_def)
next
  case (Some m)
  then show ?thesis
    by (simp add: health_check_def get_model_present jsonify_def)
qed

theorem health_check_status_witness:
  "health_check (\<lambda>n. False) 5 \<lparr>model = None, last_used = 0, load_calls = 0, files = Map.empty\<rparr>
     = (fst (health_check (\<lambda>n. False) 5 \<lparr>model = None, last_used = 0, load_calls = 0, files = Map.empty\<rparr>),
        \<lparr>model = None, last_used = 0, load_calls = 1, files = Map.empty\<rparr>)
   \<and> py_getitem (fst (fst (health_check (\<lambda>n. False) 5
         \<lparr>model = None, last_used = 0, load_calls = 0, files = Map.empty\<rparr>))) ''model_status''
       = Inr (JStr ''not_loaded'')
   \<and> snd (health_check (\<lambda>n. False) 5 \<lparr>model = Some 0, last_used = 0, load_calls = 1, files = Map.empty\<rparr>)
       = \<lparr>model = Some 0, last_used = 5, load_calls = 1, files = Map.empty\<rparr>"
  using health_check_status [of "\<lambda>n. False" 5 "\<lparr>model = None, last_used = 0, load_calls = 0, files = Map.empty\<rparr>"]
    health_check_status [of "\<lambda>n. False" 5 "\<lparr>model = Some 0, last_used = 0, load_calls = 1, files = Map.empty\<rparr>"]
  by (simp add: health_check_def get_model_def load_whisper_model_def Let_def jsonify_def)

text \<open>
  Claim C5, as the claim states it, fails: when the load of the first caller fails, the
  caller that waited for the lock loads again. With two callers, the first load failing
  and the second succeeding, there are two loads, the first caller gets nothing and the
  second gets a model.
\<close>

theorem get_model_calls_counterexample:
  "get_model_calls (\<lambda>n. n = 1) [0, 0] \<lparr>model = None, last_used = 0, load_calls = 0, files = Map.empty\<rparr>
     = ([None, Some 1], \<lparr>model = Some 1, last_used = 0, load_calls = 2, files = Map.empty\<rparr>)"
  by (simp add: get_model_def load_whisper_model_def Let_def)

text \<open>
  Claim C5, amended. \<open>get_model\<close> runs under the lock, so the calls of concurrent
  callers happen one after the other. From the absent state: when the first load
  succeeds, there is exactly one load and every caller gets the same model. When a load
  fails, that caller gets nothing, the model stays absent, and the next caller, waiting
  or later, attempts its own load; when every load fails, each caller makes one load and
  gets nothing.
\<close>

theorem get_model_serialized:
  "(model s = None \<and> ld (load_calls s) \<and> nows \<noteq> [] \<longrightarrow>
      fst (get_model_calls ld nows s) = replicate (length nows) (Some (load_calls s))
      \<and> load_calls (snd (get_model_calls ld nows s)) = load_calls s + 1)
   \<and> (model s = None \<and> \<not> ld (load_calls s) \<longrightarrow>
      get_model ld now s = (None, s\<lparr>load_calls := load_calls s + 1\<rparr>)
      \<and> fst (get_model ld now' (snd (get_model ld now s)))
          = (if ld (load_calls s + 1) then Some (load_calls s + 1) else None))
   \<and> (model s = None \<and> (\<forall>n. \<not> ld n) \<longrightarrow>
      fst (get_model_calls ld nows s) = replicate (length nows) None
      \<and> snd (get_model_calls ld nows s) = s\<lparr>load_calls := load_calls s + length nows\<rparr>)"
proof (intro conjI impI)
  assume h: "model s = None \<and> ld (load_calls s) \<and> nows \<noteq> []"
  then obtain now0 rest where n: "nows = now0 # rest" by (cases nows) auto
  let ?s1 = "s\<lparr>load_calls := load_calls s + 1, model := Some (load_calls s), last_used := now0\<rparr>"
  have g: "get_model ld now0 s = (Some (load_calls s), ?s1)"
    using h by (simp add: get_model_absent)
  have m: "model ?s1 = Some (load_calls s)" by simp
  note r = get_model_calls_present [OF m, of ld rest]
  show "fst (get_model_calls ld nows s) = replicate (length nows) (Some (load_calls s))"
    using r g by (simp add: n get_model_calls_Cons del: get_model_calls.simps)
  show "load_calls (snd (get_model_calls ld nows s)) = load_calls s + 1"
    using r g by (simp add: n get_model_calls_Cons del: get_model_calls.simps)
next
  assume h: "model s = None \<and> \<not> ld (load_calls s)"
  then show "get_model ld now s = (None, s\<lparr>load_calls := load_calls s + 1\<rparr>)"
    by (simp add: get_model_absent)
  from h show "fst (get_model ld now' (snd (get_model ld now s)))
          = (if ld (load_calls s + 1) then Some (load_calls s + 1) else None)"
    by (simp add: get_model_absent)
next
  assume h: "model s = None \<and> (\<forall>n. \<not> ld n)"
  then show "fst (get_model_calls ld nows s) = replicate (length nows) None"
    using get_model_calls_all_fail [of s ld nows] by simp
  from h show "snd (get_model_calls ld nows s) = s\<lparr>load_calls := load_calls s + length nows\<rparr>"
    using get_model_calls_all_fail [of s ld nows] by simp
qed

theorem get_model_serialized_witness:
  "fst (get_model_calls (\<lambda>n. True) [1, 2, 3] \<lparr>model = None, last_used = 0, load_calls = 0, files = Map.empty\<rparr>)
     = [Some 0, Some 0, Some 0]
   \<and> load_calls (snd (get_model_calls (\<lambda>n. True) [1, 2, 3]
        \<lparr>model = None, last_used = 0, load_calls = 0, files = Map.empty\<rparr>)) = 1
   \<and> fst (get_model_calls (\<lambda>n. False) [1, 2, 3] \<lparr>model = None, last_used = 0, load_calls = 0, files = Map.empty\<rparr>)
     = [None, None, None]
   \<and> get_model (\<lambda>n. False) 1 \<lparr>model = None, last_used = 0, load_calls = 0, files = Map.empty\<rparr>
     = (None, \<lparr>model = None, last_used = 0, load_calls = 1, files = Map.empty\<rparr>)"
  using get_model_serialized [of "\<lparr>model = None, last_used = 0, load_calls = 0, files = Map.empty\<rparr>" "\<lambda>n. True" "[1, 2, 3]" 1 1]
    get_model_serialized [of "\<lparr>model = None, last_used = 0, load_calls = 0, files = Map.empty\<rparr>" "\<lambda>n. False" "[1, 2, 3]" 1 1]
  by (simp add: numeral_3_eq_3 get_model_def load_whisper_model_def Let_def)

section \<open>Decoding the payload\<close>

lemma table_all:
  "\<forall>i \<in> set [0..<64]. table_a2b_base64 (table_b2a_base64 ! i) = Some (of_nat i)
      \<and> table_b2a_base64 ! i \<noteq> CHR ''='' \<and> (of_char (table_b2a_base64 ! i) :: nat) \<le> 127"
  by (simp add: upt_rec table_b2a_base64_def table_a2b_base64_def)


lemma b64chr_props:
  assumes "unat w < 64"
  shows "table_a2b_base64 (b64chr w) = Some w" and "b64chr w \<noteq> CHR ''=''"
    and "(of_char (b64chr w) :: nat) \<le> 127"
proof -
  have "unat w \<in> set [0..<64]" using assms by simp
  with table_all have
    "table_a2b_base64 (table_b2a_base64 ! unat w) = Some (of_nat (unat w))
      \<and> table_b2a_base64 ! unat w \<noteq> CHR ''='' \<and> (of_char (table_b2a_base64 ! unat w) :: nat) \<le> 127"
    by blast
  then show "table_a2b_base64 (b64chr w) = Some w" and "b64chr w \<noteq> CHR ''=''"
    and "(of_char (b64chr w) :: nat) \<le> 127"
    by (simp_all add: b64chr_def)
qed

lemma and3: "(a::byte) AND 3 = take_bit 2 a"
  by (simp add: take_bit_eq_mask mask_eq_exp_minus_1)

lemma and15: "(a::byte) AND 15 = take_bit 4 a"
  by (simp add: take_bit_eq_mask mask_eq_exp_minus_1)

lemma and63: "(a::byte) AND 63 = take_bit 6 a"
  by (simp add: take_bit_eq_mask mask_eq_exp_minus_1)

lemma lt8: "n < 8 \<Longrightarrow> n \<in> {0, 1, 2, 3, 4, 5, 6, 7::nat}"
  by auto

lemma byte1: "push_bit 2 (drop_bit 2 a) OR drop_bit 4 (push_bit 4 (a AND 3) OR drop_bit 4 b) = (a::byte)"
  unfolding and3
proof (rule bit_word_eqI)
  fix n assume "n < LENGTH(8)"
  then have "n < 8" by simp
  from lt8 [OF this]
  show "bit (push_bit 2 (drop_bit 2 a) OR drop_bit 4 (push_bit 4 (take_bit 2 a) OR drop_bit 4 b)) n = bit a n"
    by (auto simp add: bit_simps simp flip: numeral_2_eq_2 numeral_3_eq_3)
qed

lemma byte2:
  "push_bit 4 ((push_bit 4 (a AND 3) OR drop_bit 4 b) AND 15)
     OR drop_bit 2 (push_bit 2 (b AND 15) OR drop_bit 6 c) = (b::byte)"
  unfolding and3 and15
proof (rule bit_word_eqI)
  fix n assume "n < LENGTH(8)"
  then have "n < 8" by simp
  from lt8 [OF this]
  show "bit (push_bit 4 (take_bit 4 (push_bit 4 (take_bit 2 a) OR drop_bit 4 b))
           OR drop_bit 2 (push_bit 2 (take_bit 4 b) OR drop_bit 6 c)) n = bit b n"
    by (auto simp add: bit_simps)
qed

lemma byte3: "push_bit 6 ((push_bit 2 (b AND 15) OR drop_bit 6 c) AND 3) OR (c AND 63) = (c::byte)"
  unfolding and3 and15 and63
proof (rule bit_word_eqI)
  fix n assume "n < LENGTH(8)"
  then have "n < 8" by simp
  from lt8 [OF this]
  show "bit (push_bit 6 (take_bit 2 (push_bit 2 (take_bit 4 b) OR drop_bit 6 c)) OR take_bit 6 c) n = bit c n"
    by (auto simp add: bit_simps)
qed

lemma unat_lt_64: assumes "take_bit 6 (w::byte) = w" shows "unat w < 64"
proof -
  have "take_bit 6 (unat w) < 2 ^ 6" by (rule take_bit_nat_less_exp)
  then have "unat (take_bit 6 w) < 64" by (simp add: unsigned_take_bit_eq)
  then show ?thesis using assms by simp
qed

lemma sextet1: "unat (drop_bit 2 (a::byte)) < 64"
proof (rule unat_lt_64, rule bit_word_eqI)
  fix n assume "n < LENGTH(8)"
  then have "n < 8" by simp
  from lt8 [OF this] show "bit (take_bit 6 (drop_bit 2 a)) n = bit (drop_bit 2 a) n"
    by (auto simp add: bit_simps dest: bit_imp_le_length)
qed

lemma sextet2: "unat (push_bit 4 ((a::byte) AND 3) OR drop_bit 4 (b::byte)) < 64"
  unfolding and3
proof (rule unat_lt_64, rule bit_word_eqI)
  fix n assume "n < LENGTH(8)"
  then have "n < 8" by simp
  from lt8 [OF this]
  show "bit (take_bit 6 (push_bit 4 (take_bit 2 a) OR drop_bit 4 b)) n
      = bit (push_bit 4 (take_bit 2 a) OR drop_bit 4 b) n"
    by (auto simp add: bit_simps dest: bit_imp_le_length)
qed

lemma sextet3: "unat (push_bit 2 ((b::byte) AND 15) OR drop_bit 6 (c::byte)) < 64"
  unfolding and15
proof (rule unat_lt_64, rule bit_word_eqI)
  fix n assume "n < LENGTH(8)"
  then have "n < 8" by simp
  from lt8 [OF this]
  show "bit (take_bit 6 (push_bit 2 (take_bit 4 b) OR drop_bit 6 c)) n
      = bit (push_bit 2 (take_bit 4 b) OR drop_bit 6 c) n"
    by (auto simp add: bit_simps dest: bit_imp_le_length)
qed

lemma sextet4: "unat ((c::byte) AND 63) < 64"
  unfolding and63 by (rule unat_lt_64) simp

lemma sextet2_pad: "unat (push_bit 4 ((a::byte) AND 3)) < 64"
  using sextet2 [of a 0] by simp

lemma sextet3_pad: "unat (push_bit 2 ((b::byte) AND 15)) < 64"
  using sextet3 [of b 0] by simp

lemma byte1_pad: "push_bit 2 (drop_bit 2 a) OR drop_bit 4 (push_bit 4 (a AND 3)) = (a::byte)"
  using byte1 [of a 0] by simp

lemma byte2_pad:
  "push_bit 4 ((push_bit 4 (a AND 3) OR drop_bit 4 b) AND 15) OR drop_bit 2 (push_bit 2 (b AND 15)) = (b::byte)"
  using byte2 [of a b 0] by simp

lemmas sextets = sextet1 sextet2 sextet3 sextet4 sextet2_pad sextet3_pad

lemma a2b_step:
  assumes "unat w < 64"
  shows "a2b_base64_loop (b64chr w # cs) quad_pos leftchar pads bin_data =
     (if quad_pos = 0 then a2b_base64_loop cs 1 w 0 bin_data
      else if quad_pos = 1 then
        a2b_base64_loop cs 2 (w AND 15) 0 (bin_data @ [push_bit 2 leftchar OR drop_bit 4 w])
      else if quad_pos = 2 then
        a2b_base64_loop cs 3 (w AND 3) 0 (bin_data @ [push_bit 4 leftchar OR drop_bit 2 w])
      else a2b_base64_loop cs 0 0 0 (bin_data @ [push_bit 6 leftchar OR w]))"
  using b64chr_props [OF assms] by simp

lemma quad_full:
  assumes "unat w1 < 64" and "unat w2 < 64" and "unat w3 < 64" and "unat w4 < 64"
  shows "a2b_base64_loop (b64chr w1 # b64chr w2 # b64chr w3 # b64chr w4 # cs) 0 leftchar pads bin_data
     = a2b_base64_loop cs 0 0 0
         (bin_data @ [push_bit 2 w1 OR drop_bit 4 w2, push_bit 4 (w2 AND 15) OR drop_bit 2 w3,
                      push_bit 6 (w3 AND 3) OR w4])"
  using assms by (simp add: a2b_step del: a2b_base64_loop.simps(2))

lemma quad_pad1:
  assumes "unat w1 < 64" and "unat w2 < 64" and "unat w3 < 64"
  shows "a2b_base64_loop [b64chr w1, b64chr w2, b64chr w3, CHR ''=''] 0 leftchar pads bin_data
     = Inr (bin_data @ [push_bit 2 w1 OR drop_bit 4 w2, push_bit 4 (w2 AND 15) OR drop_bit 2 w3])"
proof -
  have "a2b_base64_loop [b64chr w1, b64chr w2, b64chr w3, CHR ''=''] 0 leftchar pads bin_data
     = a2b_base64_loop [CHR ''=''] 3 (w3 AND 3) 0
         (bin_data @ [push_bit 2 w1 OR drop_bit 4 w2, push_bit 4 (w2 AND 15) OR drop_bit 2 w3])"
    using assms by (simp add: a2b_step del: a2b_base64_loop.simps(2))
  then show ?thesis by simp
qed

lemma quad_pad2:
  assumes "unat w1 < 64" and "unat w2 < 64"
  shows "a2b_base64_loop [b64chr w1, b64chr w2, CHR ''='', CHR ''=''] 0 leftchar pads bin_data
     = Inr (bin_data @ [push_bit 2 w1 OR drop_bit 4 w2])"
proof -
  have "a2b_base64_loop [b64chr w1, b64chr w2, CHR ''='', CHR ''=''] 0 leftchar pads bin_data
     = a2b_base64_loop [CHR ''='', CHR ''=''] 2 (w2 AND 15) 0 (bin_data @ [push_bit 2 w1 OR drop_bit 4 w2])"
    using assms by (simp add: a2b_step del: a2b_base64_loop.simps(2))
  then show ?thesis by simp
qed

lemma a2b_base64_loop_b64encode:
  "a2b_base64_loop (b64encode bs) 0 leftchar pads bin_data = Inr (bin_data @ bs)"
proof (induction bs arbitrary: leftchar pads bin_data rule: b64encode.induct)
  case 1
  then show ?case by simp
next
  case (2 a)
  show ?case
    by (simp only: b64encode.simps quad_pad2 [OF sextet1 sextet2_pad] byte1_pad)
next
  case (3 a b)
  show ?case
    by (simp only: b64encode.simps quad_pad1 [OF sextet1 sextet2 sextet3_pad] byte1 byte2_pad)
next
  case (4 a b c bs)
  show ?case
    by (simp only: b64encode.simps append_Cons append_Nil
          quad_full [OF sextet1 sextet2 sextet3 sextet4] byte1 byte2 byte3 "4.IH" append_assoc)
qed

lemma b64encode_ascii: "c \<in> set (b64encode bs) \<Longrightarrow> (of_char c :: nat) \<le> 127"
proof (induction bs rule: b64encode.induct)
  case 1
  then show ?case by simp
next
  case (2 a)
  then show ?case
    using b64chr_props(3) [OF sextet1, of a] b64chr_props(3) [OF sextet2_pad, of a]
    by (auto simp only: b64encode.simps set_simps insert_iff empty_iff) simp_all
next
  case (3 a b)
  then show ?case
    using b64chr_props(3) [OF sextet1, of a] b64chr_props(3) [OF sextet2, of a b]
      b64chr_props(3) [OF sextet3_pad, of b]
    by (auto simp only: b64encode.simps set_simps insert_iff empty_iff) simp_all
next
  case (4 a b c bs)
  then show ?case
    using b64chr_props(3) [OF sextet1, of a] b64chr_props(3) [OF sextet2, of a b]
      b64chr_props(3) [OF sextet3, of b c] b64chr_props(3) [OF sextet4, of c]
    by (auto simp only: b64encode.simps set_simps set_append Un_iff insert_iff empty_iff)
qed

lemma b64decode_b64encode: "b64decode (JStr (b64encode bs)) = Inr bs"
proof -
  have "\<not> (\<exists>c \<in> set (b64encode bs). (of_char c :: nat) > 127)"
    using b64encode_ascii by (auto simp: not_less)
  then show ?thesis
    by (simp add: b64decode_def a2b_base64_loop_b64encode)
qed

section \<open>The transcription request\<close>

lemma files_cleanup [simp]: "files (cleanup_model_if_idle now s) = files s"
  by (simp add: cleanup_model_if_idle_def cleanup_locked_def)

lemma files_get_model [simp]: "files (snd (get_model ld now s)) = files s"
  by (simp add: get_model_def load_whisper_model_def Let_def)

lemma files_acquire [simp]: "files (snd (acquire env s)) = files s"
  by (simp add: acquire_def)

lemma transcribe_audio_try_acquire:
  "transcribe_audio_try env req s =
     (if fst (acquire env s) = None then (Inr model_unavailable, snd (acquire env s))
      else
        (case get_json req of
           Inl e \<Rightarrow> (Inl e, snd (acquire env s))
         | Inr data \<Rightarrow>
             (case py_in ''audio_data'' data of
                Inl e \<Rightarrow> (Inl e, snd (acquire env s))
              | Inr present \<Rightarrow>
                  if \<not> present then (Inr missing_audio_data, snd (acquire env s))
                  else
                    (case py_getitem data ''audio_data'' of
                       Inl e \<Rightarrow> (Inl e, snd (acquire env s))
                     | Inr audio_data \<Rightarrow>
                         (case py_len audio_data of
                            Inl e \<Rightarrow> (Inl e, snd (acquire env s))
                          | Inr n \<Rightarrow>
                              if n > 5 * 1024 * 1024 then (Inr audio_too_large, snd (acquire env s))
                              else
                                (case b64decode audio_data of
                                   Inl e \<Rightarrow> (Inr invalid_base64, snd (acquire env s))
                                 | Inr audio_bytes \<Rightarrow>
                                     transcribe_temp_file env audio_bytes (snd (acquire env s))))))))"
  by (simp only: transcribe_audio_try_def acquire_def Let_def case_prod_beta)

lemma transcribe_audio_try_acquired:
  assumes "fst (acquire env s) \<noteq> None" and "get_json req = Inr data"
  shows "transcribe_audio_try env req s =
     (case py_in ''audio_data'' data of
        Inl e \<Rightarrow> (Inl e, snd (acquire env s))
      | Inr present \<Rightarrow>
          if \<not> present then (Inr missing_audio_data, snd (acquire env s))
          else
            (case py_getitem data ''audio_data'' of
               Inl e \<Rightarrow> (Inl e, snd (acquire env s))
             | Inr audio_data \<Rightarrow>
                 (case py_len audio_data of
                    Inl e \<Rightarrow> (Inl e, snd (acquire env s))
                  | Inr n \<Rightarrow>
                      if n > 5 * 1024 * 1024 then (Inr audio_too_large, snd (acquire env s))
                      else
                        (case b64decode audio_data of
                           Inl e \<Rightarrow> (Inr invalid_base64, snd (acquire env s))
                         | Inr audio_bytes \<Rightarrow> transcribe_temp_file env audio_bytes (snd (acquire env s))))))"
  using assms by (simp add: transcribe_audio_try_acquire del: not_None_eq)

lemma transcribe_audio_try_unavailable:
  assumes "fst (acquire env s) = None"
  shows "transcribe_audio_try env req s = (Inr model_unavailable, snd (acquire env s))"
  using assms by (simp add: transcribe_audio_try_acquire)

lemma transcribe_audio_payload:
  assumes "fst (acquire env s) \<noteq> None" and "get_json req = Inr (JObj items)"
    and "map_of items ''audio_data'' = Some payload"
  shows "transcribe_audio env req s =
     (case py_len payload of
        Inl e \<Rightarrow> (could_not_transcribe, snd (acquire env s))
      | Inr n \<Rightarrow>
          if n > 5 * 1024 * 1024 then (audio_too_large, snd (acquire env s))
          else
            (case b64decode payload of
               Inl e \<Rightarrow> (invalid_base64, snd (acquire env s))
             | Inr audio_bytes \<Rightarrow>
                 (case transcribe_temp_file env audio_bytes (snd (acquire env s)) of
                    (Inl e, s2) \<Rightarrow> (could_not_transcribe, s2)
                  | (Inr response, s2) \<Rightarrow> (response, s2))))"
proof -
  have "(''audio_data'', payload) \<in> set items" using assms(3) by (rule map_of_SomeD)
  then have "''audio_data'' \<in> fst ` set items" by force
  then show ?thesis
    using assms
    by (simp add: transcribe_audio_def transcribe_audio_try_acquired split: sum.splits)
qed

lemma acquire_ready_fair [simp]:
  "acquire (fair_weather\<lparr>unlink_ok := u, write_ok := w\<rparr>) ready = (Some 0, ready\<lparr>last_used := 10\<rparr>)"
  "acquire fair_weather ready = (Some 0, ready\<lparr>last_used := 10\<rparr>)"
  by (simp_all add: acquire_def fair_weather_def ready_def get_model_def cleanup_model_if_idle_def
        cleanup_check_def)

lemma a2b_base64_loop_skip:
  "a2b_base64_loop cs quad_pos leftchar pads bin_data =
   a2b_base64_loop (filter (\<lambda>c. c = CHR ''='' \<or> table_a2b_base64 c \<noteq> None) cs) quad_pos leftchar pads bin_data"
  by (induction cs quad_pos leftchar pads bin_data rule: a2b_base64_loop.induct)
     (auto split: option.splits)

lemma transcribe_temp_file_written:
  assumes "write_ok env"
  shows "fst (transcribe_temp_file env audio_bytes s) =
     (case transcribe env audio_bytes of Inl e \<Rightarrow> Inl e | Inr result \<Rightarrow> Inr (transcription_response result))"
  using assms by (simp add: transcribe_temp_file_def Let_def split: sum.splits)

lemma b64encode_a: "b64encode [97] = ''YQ==''"
  by (simp add: b64chr_def table_b2a_base64_def)

lemma b64decode_short: "b64decode (JStr ''YQ='') = Inl BinasciiError"
  by (simp add: b64decode_def table_a2b_base64_def)

lemma transcribe_temp_file_files:
  "files (snd (transcribe_temp_file env audio_bytes s)) =
     (if \<not> write_ok env then (files s)(tmp_name env \<mapsto> [])
      else if tmp_name env \<noteq> [] \<and> unlink_ok env then (files s)(tmp_name env := None)
      else (files s)(tmp_name env \<mapsto> audio_bytes))"
  by (simp add: transcribe_temp_file_def Let_def split: sum.splits)

lemma transcribe_audio_files:
  "files (snd (transcribe_audio env req s)) = files s
   \<or> (\<exists>audio_bytes. files (snd (transcribe_audio env req s))
         = files (snd (transcribe_temp_file env audio_bytes (snd (acquire env s)))))"
  by (auto simp add: transcribe_audio_def transcribe_audio_try_acquire case_prod_beta
        split: sum.splits if_splits)

text \<open>
  Claim C6. For a request that got a model and whose body is an object with a string
  under \<open>audio_data\<close>: when the string is longer than \<open>5 * 1024 * 1024\<close> the answer is
  the 413 response, whatever \<open>b64decode\<close> would make of the string, and no file is
  touched; when it is not longer, \<open>b64decode\<close> decides: an exception gives the
  400 response, decoded bytes go on to the temporary file.
\<close>

theorem oversize_rejected_before_decode:
  assumes "fst (acquire env s) \<noteq> None" and "get_json req = Inr (JObj items)"
    and "map_of items ''audio_data'' = Some (JStr payload)"
  shows "(length payload > 5 * 1024 * 1024 \<longrightarrow>
            transcribe_audio env req s = (audio_too_large, snd (acquire env s))
            \<and> snd audio_too_large = 413
            \<and> files (snd (transcribe_audio env req s)) = files s)
       \<and> (length payload \<le> 5 * 1024 * 1024 \<longrightarrow>
            (\<forall>e. b64decode (JStr payload) = Inl e \<longrightarrow>
                 transcribe_audio env req s = (invalid_base64, snd (acquire env s)))
          \<and> (\<forall>audio_bytes. b64decode (JStr payload) = Inr audio_bytes \<longrightarrow>
                 transcribe_audio env req s =
                   (case transcribe_temp_file env audio_bytes (snd (acquire env s)) of
                      (Inl e, s2) \<Rightarrow> (could_not_transcribe, s2)
                    | (Inr response, s2) \<Rightarrow> (response, s2))))"
  using transcribe_audio_payload [OF assms]
  by (auto simp: audio_too_large_def)

theorem oversize_rejected_before_decode_witness:
  "transcribe_audio fair_weather (post (JObj [(''audio_data'', JStr (replicate 5242881 CHR ''A''))])) ready
     = (audio_too_large, ready\<lparr>last_used := 10\<rparr>)
   \<and> transcribe_audio fair_weather (post (JObj [(''audio_data'', JStr ''YQ='')])) ready
     = (invalid_base64, ready\<lparr>last_used := 10\<rparr>)"
proof -
  have a: "fst (acquire fair_weather ready) \<noteq> None" by simp
  have big: "get_json (post (JObj [(''audio_data'', JStr (replicate 5242881 CHR ''A''))])) =
      Inr (JObj [(''audio_data'', JStr (replicate 5242881 CHR ''A''))])"
    by (simp add: post_def)
  have small: "get_json (post (JObj [(''audio_data'', JStr ''YQ='')])) =
      Inr (JObj [(''audio_data'', JStr ''YQ='')])"
    by (simp add: post_def)
  have m1: "map_of [(''audio_data'', JStr (replicate 5242881 CHR ''A''))] ''audio_data''
      = Some (JStr (replicate 5242881 CHR ''A''))" by simp
  have m2: "map_of [(''audio_data'', JStr ''YQ='')] ''audio_data'' = Some (JStr ''YQ='')" by simp
  have d: "b64decode (JStr ''YQ='') = Inl BinasciiError"
    by (simp add: b64decode_def table_a2b_base64_def)
  from oversize_rejected_before_decode [OF a big m1, THEN conjunct1]
  have "transcribe_audio fair_weather (post (JObj [(''audio_data'', JStr (replicate 5242881 CHR ''A''))])) ready
     = (audio_too_large, ready\<lparr>last_used := 10\<rparr>)" by simp
  moreover from oversize_rejected_before_decode [OF a small m2, THEN conjunct2] d
  have "transcribe_audio fair_weather (post (JObj [(''audio_data'', JStr ''YQ='')])) ready
     = (invalid_base64, ready\<lparr>last_used := 10\<rparr>)" by simp
  ultimately show ?thesis by simp
qed

text \<open>
  Claim C7. The view means to validate the payload: its comment reads
  \<open>Validate and decode base64 audio data\<close> and its answer to a failed decoding is
  \<open>Invalid base64 audio data\<close> with 400. It calls \<open>b64decode\<close> with the default
  \<open>validate=False\<close>, which skips the characters that are not in the alphabet instead
  of rejecting them. The payload \<open>$$$$\<close> holds no character of the alphabet and is not
  the encoding of anything; the code decodes it to the empty byte string, gives the model
  an empty file and answers 200, where the claim asks for the 400 response.
\<close>

theorem invalid_base64_accepted:
  "table_a2b_base64 CHR ''$'' = None
   \<and> b64decode (JStr ''$$$$'') = Inr []
   \<and> fst (transcribe_audio fair_weather (post (JObj [(''audio_data'', JStr ''$$$$'')])) ready)
       = transcription_response \<lparr>text_of = '' namaste '', language = ''hi''\<rparr>
   \<and> snd (transcription_response \<lparr>text_of = '' namaste '', language = ''hi''\<rparr>) = 200"
proof -
  have t: "table_a2b_base64 CHR ''$'' = None" by (simp add: table_a2b_base64_def)
  have d: "b64decode (JStr ''$$$$'') = Inr []" by (simp add: b64decode_def t)
  have a: "fst (acquire fair_weather ready) \<noteq> None" by simp
  have "transcribe_audio fair_weather (post (JObj [(''audio_data'', JStr ''$$$$'')])) ready
      = (case transcribe_temp_file fair_weather [] (ready\<lparr>last_used := 10\<rparr>) of
           (Inl e, s2) \<Rightarrow> (could_not_transcribe, s2) | (Inr response, s2) \<Rightarrow> (response, s2))"
    using transcribe_audio_payload [OF a, of "post (JObj [(''audio_data'', JStr ''$$$$'')])"
        "[(''audio_data'', JStr ''$$$$'')]" "JStr ''$$$$''"] d
    by (simp add: post_def)
  moreover have "fst (transcribe_temp_file fair_weather [] (ready\<lparr>last_used := 10\<rparr>))
      = Inr (transcription_response \<lparr>text_of = '' namaste '', language = ''hi''\<rparr>)"
    by (simp add: transcribe_temp_file_written fair_weather_def)
  ultimately have "fst (transcribe_audio fair_weather (post (JObj [(''audio_data'', JStr ''$$$$'')])) ready)
       = transcription_response \<lparr>text_of = '' namaste '', language = ''hi''\<rparr>"
    by (simp add: case_prod_beta split: sum.splits)
  moreover have "snd (transcription_response \<lparr>text_of = '' namaste '', language = ''hi''\<rparr>) = 200"
    by (simp add: transcription_response_def jsonify_def Let_def)
  ultimately show ?thesis using t d by simp
qed

text \<open>
  What the decoding step does keep of the round trip. For a request that got a model and
  whose payload has a length within the ceiling: whenever \<open>b64decode\<close> raises, the
  answer is the 400 response. On an ASCII string \<open>b64decode\<close> sees only the characters
  of the alphabet and the padding. The standard encoding of any byte string decodes to
  that byte string, and when the payload is such an encoding and the write of the file
  succeeds, the model is given exactly these bytes.
\<close>

lemma decode_payload:
  assumes "fst (acquire env s) \<noteq> None" and "get_json req = Inr (JObj items)"
    and "map_of items ''audio_data'' = Some payload"
    and "py_len payload = Inr n" and "n \<le> 5 * 1024 * 1024"
  shows "(\<forall>e. b64decode payload = Inl e \<longrightarrow>
            transcribe_audio env req s = (invalid_base64, snd (acquire env s))
            \<and> snd invalid_base64 = 400)
     \<and> (\<forall>cs. payload = JStr cs \<and> (\<forall>c \<in> set cs. (of_char c :: nat) \<le> 127) \<longrightarrow>
            b64decode payload =
              b64decode (JStr (filter (\<lambda>c. c = CHR ''='' \<or> table_a2b_base64 c \<noteq> None) cs)))
     \<and> b64decode (JStr (b64encode bs)) = Inr bs
     \<and> (payload = JStr (b64encode bs) \<and> write_ok env \<longrightarrow>
            fst (transcribe_audio env req s) =
              (case transcribe env bs of
                 Inl e \<Rightarrow> could_not_transcribe
               | Inr result \<Rightarrow> transcription_response result))"
proof (intro conjI allI impI)
  fix e assume "b64decode payload = Inl e"
  then show "transcribe_audio env req s = (invalid_base64, snd (acquire env s))"
    using transcribe_audio_payload [OF assms(1,2,3)] assms(4,5) by simp
next
  show "snd invalid_base64 = 400" by (simp add: invalid_base64_def)
next
  fix cs assume "payload = JStr cs \<and> (\<forall>c \<in> set cs. (of_char c :: nat) \<le> 127)"
  then show "b64decode payload =
      b64decode (JStr (filter (\<lambda>c. c = CHR ''='' \<or> table_a2b_base64 c \<noteq> None) cs))"
    using a2b_base64_loop_skip [of cs 0 0 0 "[]"] by (auto simp: b64decode_def not_less)
next
  show "b64decode (JStr (b64encode bs)) = Inr bs" by (rule b64decode_b64encode)
next
  assume h: "payload = JStr (b64encode bs) \<and> write_ok env"
  then have "transcribe_audio env req s =
      (case transcribe_temp_file env bs (snd (acquire env s)) of
         (Inl e, s2) \<Rightarrow> (could_not_transcribe, s2) | (Inr response, s2) \<Rightarrow> (response, s2))"
    using transcribe_audio_payload [OF assms(1,2,3)] assms(4,5)
    by (simp add: b64decode_b64encode del: py_len.simps b64encode.simps)
  moreover have "fst (transcribe_temp_file env bs (snd (acquire env s))) =
     (case transcribe env bs of Inl e \<Rightarrow> Inl e | Inr result \<Rightarrow> Inr (transcription_response result))"
    using h by (simp add: transcribe_temp_file_written)
  ultimately show "fst (transcribe_audio env req s) =
              (case transcribe env bs of
                 Inl e \<Rightarrow> could_not_transcribe
               | Inr result \<Rightarrow> transcription_response result)"
    by (simp add: case_prod_beta split: sum.splits)
qed

lemma decode_payload_example:
  "transcribe_audio fair_weather (post (JObj [(''audio_data'', JStr ''YQ='')])) ready
     = (invalid_base64, ready\<lparr>last_used := 10\<rparr>)
   \<and> b64decode (JStr ''YQ=='') = Inr [97]
   \<and> fst (transcribe_audio fair_weather (post (JObj [(''audio_data'', JStr ''YQ=='')])) ready)
     = transcription_response \<lparr>text_of = '' namaste '', language = ''hi''\<rparr>"
proof -
  have a: "fst (acquire fair_weather ready) \<noteq> None" by simp
  have j1: "get_json (post (JObj [(''audio_data'', JStr ''YQ='')])) = Inr (JObj [(''audio_data'', JStr ''YQ='')])"
    by (simp add: post_def)
  have j2: "get_json (post (JObj [(''audio_data'', JStr ''YQ=='')])) = Inr (JObj [(''audio_data'', JStr ''YQ=='')])"
    by (simp add: post_def)
  have m1: "map_of [(''audio_data'', JStr ''YQ='')] ''audio_data'' = Some (JStr ''YQ='')" by simp
  have m2: "map_of [(''audio_data'', JStr ''YQ=='')] ''audio_data'' = Some (JStr ''YQ=='')" by simp
  have l1: "py_len (JStr ''YQ='') = Inr 3" by simp
  have l2: "py_len (JStr ''YQ=='') = Inr 4" by simp
  have n1: "(3::nat) \<le> 5 * 1024 * 1024" by simp
  have n2: "(4::nat) \<le> 5 * 1024 * 1024" by simp
  note t1 = decode_payload [OF a j1 m1 l1 n1, of "[97]", THEN conjunct1]
  note t2 = decode_payload [OF a j2 m2 l2 n2, of "[97]", THEN conjunct2, THEN conjunct2]
  have "transcribe_audio fair_weather (post (JObj [(''audio_data'', JStr ''YQ='')])) ready
     = (invalid_base64, ready\<lparr>last_used := 10\<rparr>)"
    using t1 b64decode_short by simp
  moreover have "b64decode (JStr ''YQ=='') = Inr [97]"
    using t2 b64encode_a by (simp del: b64encode.simps)
  moreover have "fst (transcribe_audio fair_weather (post (JObj [(''audio_data'', JStr ''YQ=='')])) ready)
     = transcription_response \<lparr>text_of = '' namaste '', language = ''hi''\<rparr>"
    using t2 b64encode_a by (simp add: fair_weather_def del: b64encode.simps)
  ultimately show ?thesis by simp
qed

text \<open>
  A payload that is \<open>null\<close>, a boolean or a number has no length: \<open>len\<close> raises before
  the decoding is reached, and the answer is the 500 response.
\<close>

lemma payload_without_length:
  assumes "fst (acquire env s) \<noteq> None" and "get_json req = Inr (JObj items)"
    and "map_of items ''audio_data'' = Some payload"
    and "payload = JNull \<or> (\<exists>b. payload = JBool b) \<or> (\<exists>i. payload = JInt i) \<or> (\<exists>r. payload = JFloat r)"
  shows "transcribe_audio env req s = (could_not_transcribe, snd (acquire env s))"
  using transcribe_audio_payload [OF assms(1,2,3)] assms(4) by auto

text \<open>
  Claim C8, as the claim states it, fails: the \<open>finally\<close> part passes over a failure of
  \<open>os.unlink\<close>. In a world where the unlink fails, the request is answered with
  success and the temporary file, holding the decoded bytes, is still there.
\<close>

theorem temp_file_cleanup_counterexample:
  "files (snd (transcribe_audio (fair_weather\<lparr>unlink_ok := False\<rparr>)
      (post (JObj [(''audio_data'', JStr ''YQ=='')])) ready)) ''/tmp/tmpk3x9.wav'' = Some [97]
   \<and> fst (transcribe_audio (fair_weather\<lparr>unlink_ok := False\<rparr>)
      (post (JObj [(''audio_data'', JStr ''YQ=='')])) ready)
     = transcription_response \<lparr>text_of = '' namaste '', language = ''hi''\<rparr>"
proof -
  let ?env = "fair_weather\<lparr>unlink_ok := False\<rparr>"
  have acq: "acquire ?env ready = (Some 0, ready\<lparr>last_used := 10\<rparr>)"
    by (simp add: acquire_def fair_weather_def ready_def get_model_def cleanup_model_if_idle_def
        cleanup_check_def)
  then have a: "fst (acquire ?env ready) \<noteq> None" by simp
  have d: "b64decode (JStr ''YQ=='') = Inr [97]"
    using b64decode_b64encode [of "[97]"] b64encode_a by (simp del: b64encode.simps)
  have "transcribe_audio ?env (post (JObj [(''audio_data'', JStr ''YQ=='')])) ready
      = (case transcribe_temp_file ?env [97] (ready\<lparr>last_used := 10\<rparr>) of
           (Inl e, s2) \<Rightarrow> (could_not_transcribe, s2) | (Inr response, s2) \<Rightarrow> (response, s2))"
    using transcribe_audio_payload [OF a, of "post (JObj [(''audio_data'', JStr ''YQ=='')])"
        "[(''audio_data'', JStr ''YQ=='')]" "JStr ''YQ==''"] d acq
    by (simp add: post_def)
  moreover have "fst (transcribe_temp_file ?env [97] (ready\<lparr>last_used := 10\<rparr>))
      = Inr (transcription_response \<lparr>text_of = '' namaste '', language = ''hi''\<rparr>)"
    by (simp add: transcribe_temp_file_written fair_weather_def)
  moreover have "files (snd (transcribe_temp_file ?env [97] (ready\<lparr>last_used := 10\<rparr>))) ''/tmp/tmpk3x9.wav''
      = Some [97]"
    by (simp add: transcribe_temp_file_files fair_weather_def)
  ultimately show ?thesis
    by (simp add: case_prod_beta split: sum.splits)
qed

text \<open>
  Claim C8, amended. Once the bytes are written to the temporary file, whatever the model
  does with it (a result or an exception), the \<open>finally\<close> part unlinks the file before
  the call returns; when that unlink succeeds the file is gone, and a whole request
  leaves the files as they were before it. When the unlink fails, the failure is passed
  over and the file stays.
\<close>

theorem temp_file_cleanup:
  "(write_ok env \<longrightarrow>
      fst (transcribe_temp_file env audio_bytes s) =
        (case transcribe env audio_bytes of
           Inl e \<Rightarrow> Inl e
         | Inr result \<Rightarrow> Inr (transcription_response result)))
   \<and> (write_ok env \<and> unlink_ok env \<and> tmp_name env \<noteq> [] \<longrightarrow>
        files (snd (transcribe_temp_file env audio_bytes s)) = (files s)(tmp_name env := None))
   \<and> (write_ok env \<and> unlink_ok env \<and> tmp_name env \<noteq> [] \<and> files s (tmp_name env) = None \<longrightarrow>
        files (snd (transcribe_audio env req s)) = files s)
   \<and> (write_ok env \<and> \<not> unlink_ok env \<longrightarrow>
        files (snd (transcribe_temp_file env audio_bytes s)) = (files s)(tmp_name env \<mapsto> audio_bytes))"
proof (intro conjI impI)
  assume "write_ok env"
  then show "fst (transcribe_temp_file env audio_bytes s) =
        (case transcribe env audio_bytes of
           Inl e \<Rightarrow> Inl e
         | Inr result \<Rightarrow> Inr (transcription_response result))"
    by (rule transcribe_temp_file_written)
next
  assume "write_ok env \<and> unlink_ok env \<and> tmp_name env \<noteq> []"
  then show "files (snd (transcribe_temp_file env audio_bytes s)) = (files s)(tmp_name env := None)"
    by (simp add: transcribe_temp_file_files)
next
  assume h: "write_ok env \<and> unlink_ok env \<and> tmp_name env \<noteq> [] \<and> files s (tmp_name env) = None"
  then have "(files s)(tmp_name env := None) = files s" by (simp add: fun_upd_idem)
  with h have "\<And>bs. files (snd (transcribe_temp_file env bs (snd (acquire env s)))) = files s"
    by (simp add: transcribe_temp_file_files)
  with transcribe_audio_files [of env req s]
  show "files (snd (transcribe_audio env req s)) = files s" by auto
next
  assume "write_ok env \<and> \<not> unlink_ok env"
  then show "files (snd (transcribe_temp_file env audio_bytes s)) = (files s)(tmp_name env \<mapsto> audio_bytes)"
    by (simp add: transcribe_temp_file_files)
qed

theorem temp_file_cleanup_witness:
  "files (snd (transcribe_audio fair_weather (post (JObj [(''audio_data'', JStr ''YQ=='')])) ready)) = Map.empty
   \<and> files (snd (transcribe_temp_file (fair_weather\<lparr>transcribe := (\<lambda>content. Inl RuntimeError)\<rparr>) [97] ready))
       = Map.empty
   \<and> fst (transcribe_temp_file (fair_weather\<lparr>transcribe := (\<lambda>content. Inl RuntimeError)\<rparr>) [97] ready)
       = Inl RuntimeError"
  using temp_file_cleanup [of fair_weather "[97]" ready "post (JObj [(''audio_data'', JStr ''YQ=='')])"]
    temp_file_cleanup [of "fair_weather\<lparr>transcribe := (\<lambda>content. Inl RuntimeError)\<rparr>" "[97]" ready
       "post (JObj [(''audio_data'', JStr ''YQ=='')])"]
  by (simp add: fair_weather_def ready_def)

text \<open>
  Claim C10, as the claim states it, fails: a list or a string is not an object, and the
  membership test on it does not raise. For the empty list the test says that
  \<open>audio_data\<close> is missing, and the answer is the 400 response.
\<close>

theorem non_object_body_counterexample:
  "transcribe_audio fair_weather (post (JArr [])) ready = (missing_audio_data, ready\<lparr>last_used := 10\<rparr>)
   \<and> snd missing_audio_data = 400"
proof -
  have a: "fst (acquire fair_weather ready) \<noteq> None" by simp
  have "transcribe_audio_try fair_weather (post (JArr [])) ready
      = (Inr missing_audio_data, ready\<lparr>last_used := 10\<rparr>)"
    using transcribe_audio_try_acquired [OF a, of "post (JArr [])" "JArr []"]
    by (simp add: post_def)
  then show ?thesis by (simp add: transcribe_audio_def missing_audio_data_def)
qed

text \<open>
  Claim C10, amended. For a request that got a model: when the body is \<open>null\<close>, a boolean
  or a number, the membership test raises and the answer is the 500 response. When the
  body is a list or a string, the test is evaluated on it (an element, a part of the
  string): the answer is the 400 response of the missing field when the test finds
  nothing, and the 500 response when it finds \<open>audio_data\<close>, because indexing by a
  string then raises.
\<close>

theorem non_object_body:
  assumes "fst (acquire env s) \<noteq> None" and "get_json req = Inr data"
  shows "(data = JNull \<or> (\<exists>b. data = JBool b) \<or> (\<exists>i. data = JInt i) \<or> (\<exists>r. data = JFloat r) \<longrightarrow>
            transcribe_audio env req s = (could_not_transcribe, snd (acquire env s)))
     \<and> (\<forall>xs. data = JArr xs \<longrightarrow>
            transcribe_audio env req s =
              (if JStr ''audio_data'' \<in> set xs then could_not_transcribe else missing_audio_data,
               snd (acquire env s)))
     \<and> (\<forall>t. data = JStr t \<longrightarrow>
            transcribe_audio env req s =
              (if str_contains ''audio_data'' t then could_not_transcribe else missing_audio_data,
               snd (acquire env s)))
     \<and> snd could_not_transcribe = 500 \<and> snd missing_audio_data = 400"
  using transcribe_audio_try_acquired [OF assms]
  by (auto simp add: transcribe_audio_def could_not_transcribe_def missing_audio_data_def)

theorem non_object_body_witness:
  "transcribe_audio fair_weather (post JNull) ready = (could_not_transcribe, ready\<lparr>last_used := 10\<rparr>)
   \<and> transcribe_audio fair_weather (post (JArr [JStr ''audio_data''])) ready
       = (could_not_transcribe, ready\<lparr>last_used := 10\<rparr>)
   \<and> transcribe_audio fair_weather (post (JStr ''abc'')) ready
       = (missing_audio_data, ready\<lparr>last_used := 10\<rparr>)"
proof -
  have a: "fst (acquire fair_weather ready) \<noteq> None" by simp
  have j: "\<And>body. get_json (post body) = Inr body" by (simp add: post_def)
  show ?thesis
    using non_object_body [OF a j, of JNull] non_object_body [OF a j, of "JArr [JStr ''audio_data'']"]
      non_object_body [OF a j, of "JStr ''abc''"]
    by simp
qed

end
